theory Spec2Isabelle
  imports Main "HOL-Library.Word"
begin

section \<open>The Voting contract\<close>

text \<open>
  A shallow embedding of the Solidity contract \<open>Voting\<close> (pragma \<open>^0.8.9\<close>).

  \<^item> An \<open>address\<close> is a 160-bit word.
  \<^item> A \<open>uint\<close> (\<open>uint256\<close>) is a natural number. Solidity 0.8 arithmetic is checked: the
    one arithmetic operation on a stored number, \<open>voteCount++\<close>, is modelled with its
    overflow panic written out. The loop counter of \<open>getWinner\<close> stays below the array
    length, so its \<open>i++\<close> cannot overflow.
  \<^item> A \<open>string\<close> is its list of bytes, so \<open>bytes(_name).length\<close> is \<open>length\<close>.
  \<^item> The storage array \<open>proposals\<close> is a list; \<open>push\<close> appends at the end. The source
    puts no bound on the number of proposals, and neither does the model.
  \<^item> The mapping \<open>hasVoted\<close> is a total function, \<open>False\<close> where nothing was written.
  \<^item> Emitted events are appended to a log kept with the state.
  \<^item> \<open>console.log\<close> only prints and is left out.
\<close>

type_synonym address = "160 word"
type_synonym uint = nat

definition uint_max :: uint where
  "uint_max = 2 ^ 256 - 1"

record Proposal =
  name :: string
  voteCount :: uint

datatype event =
  Voted address uint
| ProposalAdded uint string

record Voting =
  owner :: address
  proposals :: "Proposal list"
  hasVoted :: "address \<Rightarrow> bool"
  events :: "event list"

text \<open>
  A failed \<open>require\<close> reverts with its message; a checked-arithmetic overflow panics with
  code \<open>0x11\<close>.
\<close>

datatype error =
  Revert string
| Panic nat

text \<open>
  A function body maps the state to an outcome and the state reached when execution
  stopped: after the last statement, or at the failing \<open>require\<close> or panic.
\<close>

type_synonym 'a exec = "Voting \<Rightarrow> (error + 'a) \<times> Voting"

subsection \<open>Modifier and mutating functions\<close>

definition onlyOwner :: "address \<Rightarrow> unit exec \<Rightarrow> unit exec" where
  "onlyOwner sender body s =
     (if \<not> sender = owner s then (Inl (Revert ''Only owner can call this function.''), s)
      else body s)"

definition addProposalInternal :: "string \<Rightarrow> unit exec" where
  "addProposalInternal n s =
     (if \<not> length n > 0 then (Inl (Revert ''Proposal name cannot be empty.''), s)
      else if \<not> length n < 100 then (Inl (Revert ''Proposal name is too long.''), s)
      else
        let newProposalIndex = length (proposals s);
            s1 = s\<lparr>proposals := proposals s @ [\<lparr>name = n, voteCount = 0\<rparr>]\<rparr>;
            s2 = s1\<lparr>events := events s1 @ [ProposalAdded newProposalIndex n]\<rparr>
        in (Inr (), s2))"

definition addProposal :: "address \<Rightarrow> string \<Rightarrow> unit exec" where
  "addProposal sender n = onlyOwner sender (addProposalInternal n)"

definition vote :: "address \<Rightarrow> uint \<Rightarrow> unit exec" where
  "vote sender proposalIndex s =
     (if \<not> proposalIndex < length (proposals s)
        then (Inl (Revert ''Voting: Invalid proposal index.''), s)
      else if \<not> \<not> hasVoted s sender
        then (Inl (Revert ''Voting: You have already voted.''), s)
      else
        let s1 = s\<lparr>hasVoted := (hasVoted s)(sender := True)\<rparr> in
        if voteCount (proposals s1 ! proposalIndex) = uint_max then (Inl (Panic 17), s1)
        else
          let p = proposals s1 ! proposalIndex;
              s2 = s1\<lparr>proposals := (proposals s1)[proposalIndex := p\<lparr>voteCount := voteCount p + 1\<rparr>]\<rparr>;
              s3 = s2\<lparr>events := events s2 @ [Voted sender proposalIndex]\<rparr>
          in (Inr (), s3))"

subsection \<open>View functions\<close>

definition getProposalsCount :: "Voting \<Rightarrow> uint" where
  "getProposalsCount s = length (proposals s)"

definition getProposal :: "uint \<Rightarrow> Voting \<Rightarrow> error + string \<times> uint" where
  "getProposal i s =
     (if \<not> i < length (proposals s) then Inl (Revert ''GetProposal: Invalid proposal index.'')
      else let proposal = proposals s ! i in Inr (name proposal, voteCount proposal))"

text \<open>
  The scan of \<open>getWinner\<close>: \<open>i\<close> is the loop counter, \<open>winningVoteCount\<close> and
  \<open>winningProposalIndex\<close> the two locals; the result is the index after the loop.
\<close>

function getWinner_loop :: "Proposal list \<Rightarrow> uint \<Rightarrow> uint \<Rightarrow> uint \<Rightarrow> uint" where
  "getWinner_loop ps i winningVoteCount winningProposalIndex =
     (if i < length ps then
        (if voteCount (ps ! i) > winningVoteCount
           then getWinner_loop ps (i + 1) (voteCount (ps ! i)) i
         else getWinner_loop ps (i + 1) winningVoteCount winningProposalIndex)
      else winningProposalIndex)"
  by pat_completeness auto
termination
  by (relation "measure (\<lambda>(ps, i, wc, wi). length ps - i)") auto

declare getWinner_loop.simps [simp del]

definition getWinner :: "Voting \<Rightarrow> string" where
  "getWinner s =
     (if length (proposals s) = 0 then ''No proposals available''
      else name (proposals s ! getWinner_loop (proposals s) 0 0 0))"

subsection \<open>Construction\<close>

text \<open>Storage before the constructor runs: every slot is zero.\<close>

definition zero_storage :: Voting where
  "zero_storage = \<lparr>owner = 0, proposals = [], hasVoted = (\<lambda>_. False), events = []\<rparr>"

definition constructor :: "address \<Rightarrow> unit exec" where
  "constructor sender s =
     (let s1 = s\<lparr>owner := sender\<rparr> in
      case addProposalInternal ''Proposal A: Fund Project Alpha'' s1 of
        (Inl e, s2) \<Rightarrow> (Inl e, s2)
      | (Inr _, s2) \<Rightarrow>
          (case addProposalInternal ''Proposal B: Support Initiative Beta'' s2 of
             (Inl e, s3) \<Rightarrow> (Inl e, s3)
           | (Inr _, s3) \<Rightarrow> addProposalInternal ''Proposal C: Allocate Resources Gamma'' s3))"

text \<open>Deployment runs the constructor on zeroed storage; a revert deploys nothing.\<close>

definition deploy :: "address \<Rightarrow> error + Voting" where
  "deploy sender =
     (case constructor sender zero_storage of
        (Inl e, _) \<Rightarrow> Inl e
      | (Inr _, s) \<Rightarrow> Inr s)"

subsection \<open>External calls\<close>

text \<open>
  The public interface: the two mutating functions, the three view functions and the
  getters generated for the public variables \<open>owner\<close> and \<open>hasVoted\<close>. The return data
  of a call is what the signature's \<open>returns\<close> clause declares; a function without one
  returns nothing.
\<close>

datatype call =
  AddProposal string
| Vote uint
| GetProposalsCount
| GetProposal uint
| GetWinner
| Owner
| HasVoted address

datatype retval =
  RNothing
| RUint uint
| RString string
| RProposal string uint
| RAddress address
| RBool bool

text \<open>A call that reverts or panics rolls every state change of the call back.\<close>

definition commit :: "Voting \<Rightarrow> (error + unit) \<times> Voting \<Rightarrow> (error + retval) \<times> Voting" where
  "commit s r = (case r of (Inl e, _) \<Rightarrow> (Inl e, s) | (Inr _, s') \<Rightarrow> (Inr RNothing, s'))"

fun transact :: "address \<Rightarrow> call \<Rightarrow> Voting \<Rightarrow> (error + retval) \<times> Voting" where
  "transact sender (AddProposal n) s = commit s (addProposal sender n s)"
| "transact sender (Vote i) s = commit s (vote sender i s)"
| "transact sender GetProposalsCount s = (Inr (RUint (getProposalsCount s)), s)"
| "transact sender (GetProposal i) s =
     (case getProposal i s of Inl e \<Rightarrow> (Inl e, s) | Inr (n, c) \<Rightarrow> (Inr (RProposal n c), s))"
| "transact sender GetWinner s = (Inr (RString (getWinner s)), s)"
| "transact sender Owner s = (Inr (RAddress (owner s)), s)"
| "transact sender (HasVoted a) s = (Inr (RBool (hasVoted s a)), s)"

text \<open>Running a sequence of calls, each with its sender, in order.\<close>

fun run :: "Voting \<Rightarrow> (address \<times> call) list \<Rightarrow> Voting" where
  "run s [] = s"
| "run s ((sender, c) # cs) = run (snd (transact sender c s)) cs"

text \<open>A call is accepted when it neither reverts nor panics.\<close>

fun succeeded :: "error + 'a \<Rightarrow> bool" where
  "succeeded (Inr _) = True"
| "succeeded (Inl _) = False"

text \<open>The number of calls of the sequence that satisfy \<open>P\<close> and are accepted.\<close>

fun accepted :: "(address \<Rightarrow> call \<Rightarrow> bool) \<Rightarrow> Voting \<Rightarrow> (address \<times> call) list \<Rightarrow> nat" where
  "accepted P s [] = 0"
| "accepted P s ((sender, c) # cs) =
     (if P sender c \<and> succeeded (fst (transact sender c s)) then 1 else 0)
       + accepted P (snd (transact sender c s)) cs"

fun isVote :: "call \<Rightarrow> bool" where
  "isVote (Vote i) = True"
| "isVote c = False"

fun isAddProposal :: "call \<Rightarrow> bool" where
  "isAddProposal (AddProposal n) = True"
| "isAddProposal c = False"

subsection \<open>The error kinds of the specification\<close>

definition Unauthorized :: "error \<Rightarrow> bool" where
  "Unauthorized e = (e = Revert ''Only owner can call this function.'')"

definition InvalidProposal :: "error \<Rightarrow> bool" where
  "InvalidProposal e =
     (e = Revert ''Proposal name cannot be empty.'' \<or> e = Revert ''Proposal name is too long.'')"

definition InvalidIndex :: "error \<Rightarrow> bool" where
  "InvalidIndex e =
     (e = Revert ''Voting: Invalid proposal index.''
      \<or> e = Revert ''GetProposal: Invalid proposal index.'')"

definition AlreadyVoted :: "error \<Rightarrow> bool" where
  "AlreadyVoted e = (e = Revert ''Voting: You have already voted.'')"

section \<open>Single calls\<close>

text \<open>What the two mutating calls do, case by case, after the roll-back of a failed call.\<close>

lemma transact_Vote:
  "transact a (Vote i) s =
     (if \<not> i < length (proposals s) then (Inl (Revert ''Voting: Invalid proposal index.''), s)
      else if hasVoted s a then (Inl (Revert ''Voting: You have already voted.''), s)
      else if voteCount (proposals s ! i) = uint_max then (Inl (Panic 17), s)
      else (Inr RNothing,
            s\<lparr>hasVoted := (hasVoted s)(a := True),
              proposals := (proposals s)[i := (proposals s ! i)\<lparr>voteCount := voteCount (proposals s ! i) + 1\<rparr>],
              events := events s @ [Voted a i]\<rparr>))"
  by (simp add: vote_def commit_def Let_def)

lemma transact_AddProposal:
  "transact a (AddProposal n) s =
     (if a \<noteq> owner s then (Inl (Revert ''Only owner can call this function.''), s)
      else if length n = 0 then (Inl (Revert ''Proposal name cannot be empty.''), s)
      else if 100 \<le> length n then (Inl (Revert ''Proposal name is too long.''), s)
      else (Inr RNothing,
            s\<lparr>proposals := proposals s @ [\<lparr>name = n, voteCount = 0\<rparr>],
              events := events s @ [ProposalAdded (length (proposals s)) n]\<rparr>))"
  by (simp add: addProposal_def onlyOwner_def addProposalInternal_def commit_def Let_def)

lemma transact_view:
  "\<not> isVote c \<Longrightarrow> \<not> isAddProposal c \<Longrightarrow> snd (transact a c s) = s"
  by (cases c) (auto simp del: transact.simps(1,2) split: sum.splits)

lemma hasVoted_transact:
  "hasVoted (snd (transact x c s)) a =
     (hasVoted s a \<or> (x = a \<and> isVote c \<and> succeeded (fst (transact x c s))))"
  by (cases c) (auto simp: transact_Vote transact_AddProposal simp del: transact.simps(1,2) split: sum.splits)

lemma length_transact:
  "length (proposals (snd (transact x c s))) =
     length (proposals s) + (if isAddProposal c \<and> succeeded (fst (transact x c s)) then 1 else 0)"
  by (cases c) (auto simp: transact_Vote transact_AddProposal simp del: transact.simps(1,2) split: sum.splits)

lemma voteCount_transact:
  "i < length (proposals s) \<Longrightarrow>
   voteCount (proposals (snd (transact x c s)) ! i) =
     voteCount (proposals s ! i) + (if c = Vote i \<and> succeeded (fst (transact x c s)) then 1 else 0)"
  by (cases c) (auto simp: transact_Vote transact_AddProposal nth_append nth_list_update simp del: transact.simps(1,2) split: sum.splits)

lemma name_transact:
  "i < length (proposals s) \<Longrightarrow>
   name (proposals (snd (transact x c s)) ! i) = name (proposals s ! i)"
  by (cases c) (auto simp: transact_Vote transact_AddProposal nth_append nth_list_update simp del: transact.simps(1,2) split: sum.splits)

lemma owner_transact: "owner (snd (transact x c s)) = owner s"
  by (cases c) (auto simp: transact_Vote transact_AddProposal simp del: transact.simps(1,2) split: sum.splits)

lemma fresh_transact:
  "\<not> i < length (proposals s) \<Longrightarrow> i < length (proposals (snd (transact x c s))) \<Longrightarrow>
   voteCount (proposals (snd (transact x c s)) ! i) = 0 \<and> \<not> (c = Vote i)"
  by (cases c) (auto simp: transact_Vote transact_AddProposal nth_append simp del: transact.simps(1,2) split: sum.splits if_splits)

lemma Vote_out_of_range:
  "\<not> i < length (proposals s) \<Longrightarrow> \<not> succeeded (fst (transact x (Vote i) s))"
  by (simp add: transact_Vote del: transact.simps(1,2))

lemma accepted_Vote_step:
  "transact x (Vote i) s = (Inr r, s') \<Longrightarrow>
   i < length (proposals s)
   \<and> map name (proposals s') = map name (proposals s)
   \<and> map voteCount (proposals s') = (map voteCount (proposals s))[i := voteCount (proposals s ! i) + 1]"
  by (auto simp: transact_Vote map_update list_update_same_conv simp del: transact.simps(1,2) split: if_splits)

lemma accepted_AddProposal_step:
  "transact x (AddProposal n) s = (Inr r, s') \<Longrightarrow>
   r = RNothing
   \<and> proposals s' = proposals s @ [\<lparr>name = n, voteCount = 0\<rparr>]
   \<and> events s' = events s @ [ProposalAdded (length (proposals s)) n]
   \<and> owner s' = owner s \<and> hasVoted s' = hasVoted s"
  by (auto simp: transact_AddProposal simp del: transact.simps(1,2) split: if_splits)

text \<open>
  The scan of \<open>getWinner\<close> keeps, before iteration \<open>i\<close>, the largest count among the
  first \<open>i\<close> proposals and the first index where it occurs (index 0 while it is 0).
\<close>

lemma getWinner_loop_inv:
  "ps \<noteq> [] \<Longrightarrow> i \<le> length ps \<Longrightarrow> \<forall>j<i. voteCount (ps ! j) \<le> wc \<Longrightarrow>
   (wc = 0 \<and> wi = 0) \<or> (wi < i \<and> voteCount (ps ! wi) = wc \<and> (\<forall>j<wi. voteCount (ps ! j) < wc)) \<Longrightarrow>
   getWinner_loop ps i wc wi < length ps
   \<and> (\<forall>j<length ps. voteCount (ps ! j) \<le> voteCount (ps ! getWinner_loop ps i wc wi))
   \<and> (\<forall>j<getWinner_loop ps i wc wi. voteCount (ps ! j) < voteCount (ps ! getWinner_loop ps i wc wi))"
proof (induction ps i wc wi rule: getWinner_loop.induct)
  case (1 ps i wc wi)
  show ?case
  proof (cases "i < length ps")
    case False
    with "1.prems" have il: "i = length ps" by simp
    have r: "getWinner_loop ps i wc wi = wi"
      using False by (simp add: getWinner_loop.simps [of ps i])
    from "1.prems"(4) show ?thesis
    proof
      assume z: "wc = 0 \<and> wi = 0"
      with "1.prems"(1,3) il show ?thesis unfolding r by simp
    next
      assume "wi < i \<and> voteCount (ps ! wi) = wc \<and> (\<forall>j<wi. voteCount (ps ! j) < wc)"
      with "1.prems"(3) il show ?thesis unfolding r by simp
    qed
  next
    case True
    show ?thesis
    proof (cases "voteCount (ps ! i) > wc")
      case gt: True
      have r: "getWinner_loop ps i wc wi = getWinner_loop ps (i + 1) (voteCount (ps ! i)) i"
        using True gt by (simp add: getWinner_loop.simps [of ps i])
      have a: "\<forall>j<i + 1. voteCount (ps ! j) \<le> voteCount (ps ! i)"
        using "1.prems"(3) gt by (auto simp: less_Suc_eq)
      have b: "(voteCount (ps ! i) = 0 \<and> i = 0) \<or>
           (i < i + 1 \<and> voteCount (ps ! i) = voteCount (ps ! i) \<and> (\<forall>j<i. voteCount (ps ! j) < voteCount (ps ! i)))"
        using "1.prems"(3) gt by auto
      from "1.IH"(1) [OF True gt "1.prems"(1) _ a b] True show ?thesis unfolding r by simp
    next
      case le: False
      have r: "getWinner_loop ps i wc wi = getWinner_loop ps (i + 1) wc wi"
        using True le by (simp add: getWinner_loop.simps [of ps i])
      have a: "\<forall>j<i + 1. voteCount (ps ! j) \<le> wc"
        using "1.prems"(3) le by (auto simp: less_Suc_eq)
      have b: "(wc = 0 \<and> wi = 0) \<or>
           (wi < i + 1 \<and> voteCount (ps ! wi) = wc \<and> (\<forall>j<wi. voteCount (ps ! j) < wc))"
        using "1.prems"(4) by auto
      from "1.IH"(2) [OF True le "1.prems"(1) _ a b] True show ?thesis unfolding r by simp
    qed
  qed
qed

lemma getWinner_loop_first_max:
  assumes "ps \<noteq> []"
  shows "getWinner_loop ps 0 0 0 < length ps
   \<and> (\<forall>j<length ps. voteCount (ps ! j) \<le> voteCount (ps ! getWinner_loop ps 0 0 0))
   \<and> (\<forall>j<getWinner_loop ps 0 0 0. voteCount (ps ! j) < voteCount (ps ! getWinner_loop ps 0 0 0))"
  using getWinner_loop_inv [OF assms, of 0 0 0] by simp

section \<open>Sequences of calls\<close>

lemma votes_by_general:
  "(hasVoted s a \<longrightarrow> accepted (\<lambda>x c. x = a \<and> isVote c) s cs = 0 \<and> hasVoted (run s cs) a) \<and>
   (\<not> hasVoted s a \<longrightarrow> accepted (\<lambda>x c. x = a \<and> isVote c) s cs \<le> 1
        \<and> (hasVoted (run s cs) a \<longleftrightarrow> accepted (\<lambda>x c. x = a \<and> isVote c) s cs = 1))"
proof (induction cs arbitrary: s)
  case Nil
  show ?case by simp
next
  case (Cons xc cs)
  obtain x c where xc: "xc = (x, c)" by (cases xc)
  define s' where "s' = snd (transact x c s)"
  define d where "d \<longleftrightarrow> x = a \<and> isVote c \<and> succeeded (fst (transact x c s))"
  define k where "k = accepted (\<lambda>x c. x = a \<and> isVote c) s' cs"
  have step: "accepted (\<lambda>x c. x = a \<and> isVote c) s (xc # cs) = (if d then 1 else 0) + k"
    by (simp add: xc d_def k_def s'_def)
  have run: "run s (xc # cs) = run s' cs"
    by (simp add: xc s'_def)
  have hv: "hasVoted s' a \<longleftrightarrow> hasVoted s a \<or> d"
    unfolding s'_def d_def by (rule hasVoted_transact)
  have no_second: "hasVoted s a \<Longrightarrow> \<not> d"
    unfolding d_def by (cases c) (auto simp: transact_Vote simp del: transact.simps(1,2))
  have IH: "(hasVoted s' a \<longrightarrow> k = 0 \<and> hasVoted (run s' cs) a) \<and>
     (\<not> hasVoted s' a \<longrightarrow> k \<le> 1 \<and> (hasVoted (run s' cs) a \<longleftrightarrow> k = 1))"
    unfolding k_def by (rule Cons.IH)
  show ?case
    unfolding step run using IH hv no_second by (cases d; cases "hasVoted s a") auto
qed

lemma voteCount_run_general:
  "i < length (proposals (run s cs)) \<Longrightarrow>
   voteCount (proposals (run s cs) ! i) =
     (if i < length (proposals s) then voteCount (proposals s ! i) else 0)
       + accepted (\<lambda>x c. c = Vote i) s cs"
proof (induction cs arbitrary: s)
  case Nil
  then show ?case by simp
next
  case (Cons xc cs)
  obtain x c where xc: "xc = (x, c)" by (cases xc)
  let ?s' = "snd (transact x c s)"
  from Cons.prems have "i < length (proposals (run ?s' cs))" by (simp add: xc)
  from Cons.IH [OF this]
  have IH: "voteCount (proposals (run ?s' cs) ! i) =
     (if i < length (proposals ?s') then voteCount (proposals ?s' ! i) else 0)
       + accepted (\<lambda>x c. c = Vote i) ?s' cs" .
  show ?case
  proof (cases "i < length (proposals s)")
    case True
    then have "i < length (proposals ?s')" by (simp add: length_transact)
    with IH True voteCount_transact [OF True, of x c] show ?thesis by (simp add: xc)
  next
    case False
    show ?thesis
    proof (cases "i < length (proposals ?s')")
      case True
      with fresh_transact [OF False True] IH False show ?thesis by (simp add: xc)
    next
      case nlt: False
      have "\<not> (c = Vote i \<and> succeeded (fst (transact x c s)))"
        using Vote_out_of_range [OF False] by auto
      with nlt IH False show ?thesis by (simp add: xc)
    qed
  qed
qed

lemma count_run_general:
  "length (proposals (run s cs)) =
     length (proposals s) + accepted (\<lambda>x c. isAddProposal c) s cs"
  by (induction cs arbitrary: s) (auto simp: length_transact)

section \<open>Deployment\<close>

lemma deploy_state:
  "deploy creator = Inr \<lparr>owner = creator,
     proposals = [\<lparr>name = ''Proposal A: Fund Project Alpha'', voteCount = 0\<rparr>,
                  \<lparr>name = ''Proposal B: Support Initiative Beta'', voteCount = 0\<rparr>,
                  \<lparr>name = ''Proposal C: Allocate Resources Gamma'', voteCount = 0\<rparr>],
     hasVoted = (\<lambda>_. False),
     events = [ProposalAdded 0 ''Proposal A: Fund Project Alpha'',
               ProposalAdded 1 ''Proposal B: Support Initiative Beta'',
               ProposalAdded 2 ''Proposal C: Allocate Resources Gamma'']\<rparr>"
  by (simp add: deploy_def constructor_def addProposalInternal_def zero_storage_def)

lemma deploy_constructor: "deploy creator = Inr (snd (constructor creator zero_storage))"
  by (simp add: deploy_def constructor_def addProposalInternal_def zero_storage_def)

lemma deploy_voteCounts:
  "deploy creator = Inr s0 \<Longrightarrow> length (proposals s0) = 3 \<and> (\<forall>i<3. voteCount (proposals s0 ! i) = 0)"
  unfolding deploy_state by (auto simp: less_Suc_eq numeral_3_eq_3)

text \<open>The definitions unfolded to evaluate the model on concrete calls.\<close>

lemmas eval_defs = constructor_def addProposalInternal_def addProposal_def onlyOwner_def
  zero_storage_def vote_def commit_def uint_max_def getProposalsCount_def getProposal_def

text \<open>
  C10: immediately after construction the owner is the creating identity and the ledger
  holds exactly the three seed proposals, in order, each with \<open>voteCount\<close> 0, so the
  count is 3. The creator is the constructor's only input, so no deployment has another
  seed list.
\<close>

theorem constructor_seeds:
  "\<exists>s. deploy creator = Inr s \<and> owner s = creator
     \<and> proposals s = [\<lparr>name = ''Proposal A: Fund Project Alpha'', voteCount = 0\<rparr>,
                      \<lparr>name = ''Proposal B: Support Initiative Beta'', voteCount = 0\<rparr>,
                      \<lparr>name = ''Proposal C: Allocate Resources Gamma'', voteCount = 0\<rparr>]
     \<and> getProposalsCount s = 3
     \<and> getProposal 0 s = Inr (''Proposal A: Fund Project Alpha'', 0)
     \<and> getProposal 1 s = Inr (''Proposal B: Support Initiative Beta'', 0)
     \<and> getProposal 2 s = Inr (''Proposal C: Allocate Resources Gamma'', 0)
     \<and> fst (transact x Owner s) = Inr (RAddress creator)
     \<and> fst (transact x GetProposalsCount s) = Inr (RUint 3)"
  unfolding deploy_state by (simp add: getProposalsCount_def getProposal_def)

section \<open>Claims about single calls\<close>

text \<open>
  C4: with zero proposals \<open>getWinner\<close> returns the text \<open>No proposals available\<close>
  as a normal result, not an error.
\<close>

theorem getWinner_empty:
  "getProposalsCount s = 0 \<Longrightarrow>
   getWinner s = ''No proposals available''
   \<and> transact x GetWinner s = (Inr (RString ''No proposals available''), s)"
  by (simp add: getProposalsCount_def getWinner_def)

theorem getWinner_empty_witness:
  "getProposalsCount zero_storage = 0
   \<and> getWinner zero_storage = ''No proposals available''
   \<and> transact 1 GetWinner zero_storage = (Inr (RString ''No proposals available''), zero_storage)"
proof -
  have h: "getProposalsCount zero_storage = 0"
    by (simp add: getProposalsCount_def zero_storage_def)
  show ?thesis using h getWinner_empty [OF h, of 1] by simp
qed

text \<open>
  C8: for an index that is not below the number of proposals, \<open>vote\<close> and
  \<open>getProposal\<close> both fail with an invalid-index error, for any caller and any state;
  in particular at the index equal to the count.
\<close>

theorem index_out_of_range:
  "(\<not> i < getProposalsCount s \<longrightarrow>
      (\<exists>e. vote sender i s = (Inl e, s) \<and> InvalidIndex e)
      \<and> (\<exists>e. transact sender (Vote i) s = (Inl e, s) \<and> InvalidIndex e)
      \<and> (\<exists>e. getProposal i s = Inl e \<and> InvalidIndex e)
      \<and> (\<exists>e. transact sender (GetProposal i) s = (Inl e, s) \<and> InvalidIndex e))
   \<and> (\<exists>e. transact sender (Vote (getProposalsCount s)) s = (Inl e, s) \<and> InvalidIndex e)
   \<and> (\<exists>e. transact sender (GetProposal (getProposalsCount s)) s = (Inl e, s) \<and> InvalidIndex e)"
  by (simp add: getProposalsCount_def vote_def getProposal_def commit_def InvalidIndex_def)

theorem index_out_of_range_witness:
  "\<not> uint_max < getProposalsCount (snd (constructor 5 zero_storage))
   \<and> fst (transact 9 (Vote uint_max) (snd (constructor 5 zero_storage)))
        = Inl (Revert ''Voting: Invalid proposal index.'')
   \<and> getProposal uint_max (snd (constructor 5 zero_storage))
        = Inl (Revert ''GetProposal: Invalid proposal index.'')
   \<and> fst (transact 9 (Vote 3) (snd (constructor 5 zero_storage)))
        = Inl (Revert ''Voting: Invalid proposal index.'')"
  using index_out_of_range [of uint_max "snd (constructor 5 zero_storage)" 9]
  by (simp add: getProposalsCount_def vote_def getProposal_def commit_def
      constructor_def addProposalInternal_def zero_storage_def uint_max_def)

text \<open>
  C2: with at least one proposal, \<open>getWinner\<close> returns the name of the proposal with
  the lowest index among those with the maximum \<open>voteCount\<close>; when every \<open>voteCount\<close>
  is 0 that is the proposal at index 0.
\<close>

theorem getWinner_lowest_index_of_maximum:
  assumes "getProposalsCount s > 0"
  shows "(\<exists>w<getProposalsCount s.
            (\<forall>j<getProposalsCount s. voteCount (proposals s ! j) \<le> voteCount (proposals s ! w))
          \<and> (\<forall>j<w. voteCount (proposals s ! j) < voteCount (proposals s ! w))
          \<and> getWinner s = name (proposals s ! w)
          \<and> transact x GetWinner s = (Inr (RString (name (proposals s ! w))), s))
     \<and> ((\<forall>j<getProposalsCount s. voteCount (proposals s ! j) = 0) \<longrightarrow>
          getWinner s = name (proposals s ! 0))"
proof -
  from assms have ne: "proposals s \<noteq> []" by (simp add: getProposalsCount_def)
  define w where "w = getWinner_loop (proposals s) 0 0 0"
  have gw: "getWinner s = name (proposals s ! w)"
    using ne by (simp add: getWinner_def w_def)
  note fm = getWinner_loop_first_max [OF ne, folded w_def]
  have first: "\<exists>w<getProposalsCount s.
            (\<forall>j<getProposalsCount s. voteCount (proposals s ! j) \<le> voteCount (proposals s ! w))
          \<and> (\<forall>j<w. voteCount (proposals s ! j) < voteCount (proposals s ! w))
          \<and> getWinner s = name (proposals s ! w)
          \<and> transact x GetWinner s = (Inr (RString (name (proposals s ! w))), s)"
    using fm gw unfolding getProposalsCount_def by (intro exI [of _ w]) simp
  have second: "getWinner s = name (proposals s ! 0)"
    if z: "\<forall>j<getProposalsCount s. voteCount (proposals s ! j) = 0"
  proof -
    have "w = 0"
    proof (rule ccontr)
      assume "w \<noteq> 0"
      then have "0 < w" by simp
      with fm have "voteCount (proposals s ! 0) < voteCount (proposals s ! w)" by blast
      moreover from fm z have "voteCount (proposals s ! w) = 0"
        by (simp add: getProposalsCount_def)
      ultimately show False by simp
    qed
    with gw show ?thesis by simp
  qed
  from first second show ?thesis by blast
qed

theorem getWinner_lowest_index_of_maximum_witness:
  "getProposalsCount (run (snd (constructor 5 zero_storage)) [(1, Vote 2), (2, Vote 1)]) > 0
   \<and> map voteCount (proposals (run (snd (constructor 5 zero_storage)) [(1, Vote 2), (2, Vote 1)]))
        = [0, 1, 1]
   \<and> getWinner (run (snd (constructor 5 zero_storage)) [(1, Vote 2), (2, Vote 1)])
        = ''Proposal B: Support Initiative Beta''
   \<and> getWinner (snd (constructor 5 zero_storage)) = ''Proposal A: Fund Project Alpha''"
proof -
  have h: "getProposalsCount (run (snd (constructor 5 zero_storage)) [(1, Vote 2), (2, Vote 1)]) > 0"
    by (simp add: eval_defs)
  have h0: "getProposalsCount (snd (constructor 5 zero_storage)) > 0"
    by (simp add: eval_defs)
  have z: "\<forall>j<getProposalsCount (snd (constructor 5 zero_storage)).
      voteCount (proposals (snd (constructor 5 zero_storage)) ! j) = 0"
    by (simp add: eval_defs less_Suc_eq numeral_3_eq_3)
  have p: "proposals (run (snd (constructor 5 zero_storage)) [(1, Vote 2), (2, Vote 1)]) =
    [\<lparr>name = ''Proposal A: Fund Project Alpha'', voteCount = 0\<rparr>,
     \<lparr>name = ''Proposal B: Support Initiative Beta'', voteCount = 1\<rparr>,
     \<lparr>name = ''Proposal C: Allocate Resources Gamma'', voteCount = 1\<rparr>]"
    by (simp add: eval_defs)
  have g: "getWinner (run (snd (constructor 5 zero_storage)) [(1, Vote 2), (2, Vote 1)])
        = ''Proposal B: Support Initiative Beta''"
    unfolding getWinner_def p by (simp add: getWinner_loop.simps)
  from getWinner_lowest_index_of_maximum [OF h0, of 1] z
  have "getWinner (snd (constructor 5 zero_storage)) = name (proposals (snd (constructor 5 zero_storage)) ! 0)"
    by blast
  then have g0: "getWinner (snd (constructor 5 zero_storage)) = ''Proposal A: Fund Project Alpha''"
    by (simp add: eval_defs)
  from h g g0 getWinner_lowest_index_of_maximum [OF h, of 1] show ?thesis unfolding p by simp
qed

section \<open>Claims about sequences of calls\<close>

text \<open>
  C1: from deployment, in every sequence of calls at most one vote of an identity \<open>a\<close>
  is accepted, \<open>hasVoted(a)\<close> returns true exactly when one vote of \<open>a\<close> was accepted,
  and it is false for an identity without an accepted vote.
\<close>

theorem one_vote_per_identity:
  assumes "deploy creator = Inr s0"
  shows "accepted (\<lambda>x c. x = a \<and> isVote c) s0 cs \<le> 1
     \<and> fst (transact x (HasVoted a) (run s0 cs))
         = Inr (RBool (accepted (\<lambda>x c. x = a \<and> isVote c) s0 cs = 1))
     \<and> (accepted (\<lambda>x c. x = a \<and> isVote c) s0 cs = 0 \<longrightarrow> hasVoted (run s0 cs) a = False)"
proof -
  from assms have "\<not> hasVoted s0 a"
    unfolding deploy_state by auto
  with votes_by_general [of s0 a cs] show ?thesis by auto
qed

theorem one_vote_per_identity_witness:
  "deploy 5 = Inr (snd (constructor 5 zero_storage))
   \<and> accepted (\<lambda>x c. x = 1 \<and> isVote c) (snd (constructor 5 zero_storage))
        [(1, Vote 1), (1, Vote 0), (2, Vote 1), (1, Vote 1)] = 1
   \<and> fst (transact 7 (HasVoted 1)
        (run (snd (constructor 5 zero_storage)) [(1, Vote 1), (1, Vote 0), (2, Vote 1), (1, Vote 1)]))
        = Inr (RBool True)
   \<and> fst (transact 7 (HasVoted 3)
        (run (snd (constructor 5 zero_storage)) [(1, Vote 1), (1, Vote 0), (2, Vote 1), (1, Vote 1)]))
        = Inr (RBool False)"
proof -
  have h: "deploy 5 = Inr (snd (constructor 5 zero_storage))"
    by (rule deploy_constructor)
  have k: "accepted (\<lambda>x c. x = 1 \<and> isVote c) (snd (constructor 5 zero_storage))
        [(1, Vote 1), (1, Vote 0), (2, Vote 1), (1, Vote 1)] = 1"
    by (simp add: constructor_def addProposalInternal_def zero_storage_def vote_def commit_def
        uint_max_def)
  have k3: "accepted (\<lambda>x c. x = 3 \<and> isVote c) (snd (constructor 5 zero_storage))
        [(1, Vote 1), (1, Vote 0), (2, Vote 1), (1, Vote 1)] = 0"
    by simp
  show ?thesis
    using h k
      one_vote_per_identity [OF h, of 1 "[(1, Vote 1), (1, Vote 0), (2, Vote 1), (1, Vote 1)]" 7]
      one_vote_per_identity [OF h, of 3 "[(1, Vote 1), (1, Vote 0), (2, Vote 1), (1, Vote 1)]" 7]
    unfolding k k3 by simp
qed

text \<open>
  C3: from deployment, after any sequence of calls, the \<open>voteCount\<close> returned by
  \<open>getProposal(i)\<close> is the number of accepted \<open>vote(i)\<close> calls; an accepted vote adds
  exactly 1 to the counter of exactly one proposal, the one voted for, and counters start
  at 0.
\<close>

theorem voteCount_counts_accepted_votes:
  assumes "deploy creator = Inr s0"
  shows "(i < getProposalsCount (run s0 cs) \<longrightarrow>
           (\<exists>n. getProposal i (run s0 cs) = Inr (n, accepted (\<lambda>x c. c = Vote i) s0 cs)))
     \<and> (transact x (Vote k) s = (Inr r, s') \<longrightarrow>
           k < length (proposals s)
           \<and> map name (proposals s') = map name (proposals s)
           \<and> map voteCount (proposals s')
               = (map voteCount (proposals s))[k := voteCount (proposals s ! k) + 1])"
proof -
  have "getProposal i (run s0 cs) = Inr (name (proposals (run s0 cs) ! i), accepted (\<lambda>x c. c = Vote i) s0 cs)"
    if lt: "i < getProposalsCount (run s0 cs)"
  proof -
    from lt have l: "i < length (proposals (run s0 cs))" by (simp add: getProposalsCount_def)
    from deploy_voteCounts [OF assms]
    have "(if i < length (proposals s0) then voteCount (proposals s0 ! i) else 0) = 0" by auto
    with voteCount_run_general [OF l]
    have "voteCount (proposals (run s0 cs) ! i) = accepted (\<lambda>x c. c = Vote i) s0 cs" by simp
    with l show ?thesis by (simp add: getProposal_def)
  qed
  with accepted_Vote_step [of x k s r s'] show ?thesis by blast
qed

theorem voteCount_counts_accepted_votes_witness:
  "deploy 5 = Inr (snd (constructor 5 zero_storage))
   \<and> accepted (\<lambda>x c. c = Vote 1) (snd (constructor 5 zero_storage))
        [(1, Vote 1), (1, Vote 1), (2, Vote 1), (3, Vote 0), (4, Vote 3)] = 2
   \<and> getProposal 1 (run (snd (constructor 5 zero_storage))
        [(1, Vote 1), (1, Vote 1), (2, Vote 1), (3, Vote 0), (4, Vote 3)])
        = Inr (''Proposal B: Support Initiative Beta'', 2)
   \<and> transact 1 (Vote 1) (snd (constructor 5 zero_storage))
        = (Inr RNothing, snd (transact 1 (Vote 1) (snd (constructor 5 zero_storage))))
   \<and> map voteCount (proposals (snd (transact 1 (Vote 1) (snd (constructor 5 zero_storage)))))
        = [0, 1, 0]"
proof -
  have h: "deploy 5 = Inr (snd (constructor 5 zero_storage))"
    by (rule deploy_constructor)
  have t: "transact 1 (Vote 1) (snd (constructor 5 zero_storage))
        = (Inr RNothing, snd (transact 1 (Vote 1) (snd (constructor 5 zero_storage))))"
    by (simp add: eval_defs)
  have k: "accepted (\<lambda>x c. c = Vote 1) (snd (constructor 5 zero_storage))
        [(1, Vote 1), (1, Vote 1), (2, Vote 1), (3, Vote 0), (4, Vote 3)] = 2"
    by (simp add: eval_defs)
  have l: "1 < getProposalsCount (run (snd (constructor 5 zero_storage))
        [(1, Vote 1), (1, Vote 1), (2, Vote 1), (3, Vote 0), (4, Vote 3)])"
    by (simp add: eval_defs)
  have n: "name (proposals (run (snd (constructor 5 zero_storage))
        [(1, Vote 1), (1, Vote 1), (2, Vote 1), (3, Vote 0), (4, Vote 3)]) ! 1)
        = ''Proposal B: Support Initiative Beta''"
    by (simp add: eval_defs)
  have v: "map voteCount (proposals (snd (constructor 5 zero_storage))) = [0, 0, 0]"
    by (simp add: eval_defs)
  note inst = voteCount_counts_accepted_votes [OF h, of 1
      "[(1, Vote 1), (1, Vote 1), (2, Vote 1), (3, Vote 0), (4, Vote 3)]"
      1 1 "snd (constructor 5 zero_storage)" RNothing
      "snd (transact 1 (Vote 1) (snd (constructor 5 zero_storage)))"]
  from inst l k n have g: "getProposal 1 (run (snd (constructor 5 zero_storage))
        [(1, Vote 1), (1, Vote 1), (2, Vote 1), (3, Vote 0), (4, Vote 3)])
        = Inr (''Proposal B: Support Initiative Beta'', 2)"
    by (auto simp: getProposal_def split: if_splits)
  from inst t v have m: "map voteCount (proposals (snd (transact 1 (Vote 1) (snd (constructor 5 zero_storage)))))
        = [0, 1, 0]"
    by (simp add: eval_defs)
  from h k g t m show ?thesis by blast
qed

text \<open>
  C5: from deployment, the count is the number of accepted proposal additions, the three of
  the constructor included; an accepted \<open>addProposal\<close> appends the proposal at the index
  equal to the count before the call, with \<open>voteCount\<close> 0, and \<open>getProposal\<close> at the
  last index returns it.
\<close>

theorem addProposal_appends:
  assumes "deploy creator = Inr s0"
  shows "getProposalsCount (run s0 cs) = 3 + accepted (\<lambda>x c. isAddProposal c) s0 cs
     \<and> (transact x (AddProposal n) s = (Inr r, s') \<longrightarrow>
           getProposalsCount s' = getProposalsCount s + 1
           \<and> getProposal (getProposalsCount s' - 1) s' = Inr (n, 0)
           \<and> getProposal (getProposalsCount s) s' = Inr (n, 0)
           \<and> proposals s' = proposals s @ [\<lparr>name = n, voteCount = 0\<rparr>])"
proof -
  from deploy_voteCounts [OF assms] count_run_general [of s0 cs]
  have "getProposalsCount (run s0 cs) = 3 + accepted (\<lambda>x c. isAddProposal c) s0 cs"
    by (simp add: getProposalsCount_def)
  moreover have "getProposalsCount s' = getProposalsCount s + 1
           \<and> getProposal (getProposalsCount s' - 1) s' = Inr (n, 0)
           \<and> getProposal (getProposalsCount s) s' = Inr (n, 0)
           \<and> proposals s' = proposals s @ [\<lparr>name = n, voteCount = 0\<rparr>]"
    if "transact x (AddProposal n) s = (Inr r, s')"
    using accepted_AddProposal_step [OF that]
    by (simp add: getProposalsCount_def getProposal_def)
  ultimately show ?thesis by blast
qed

theorem addProposal_appends_witness:
  "deploy 5 = Inr (snd (constructor 5 zero_storage))
   \<and> accepted (\<lambda>x c. isAddProposal c) (snd (constructor 5 zero_storage))
        [(5, AddProposal ''D''), (6, AddProposal ''E''), (5, AddProposal []), (5, AddProposal ''F'')] = 2
   \<and> getProposalsCount (run (snd (constructor 5 zero_storage))
        [(5, AddProposal ''D''), (6, AddProposal ''E''), (5, AddProposal []), (5, AddProposal ''F'')]) = 5
   \<and> transact 5 (AddProposal ''D'') (snd (constructor 5 zero_storage))
        = (Inr RNothing, snd (transact 5 (AddProposal ''D'') (snd (constructor 5 zero_storage))))
   \<and> getProposal 3 (snd (transact 5 (AddProposal ''D'') (snd (constructor 5 zero_storage))))
        = Inr (''D'', 0)"
proof -
  have h: "deploy 5 = Inr (snd (constructor 5 zero_storage))"
    by (rule deploy_constructor)
  have t: "transact 5 (AddProposal ''D'') (snd (constructor 5 zero_storage))
        = (Inr RNothing, snd (transact 5 (AddProposal ''D'') (snd (constructor 5 zero_storage))))"
    by (simp add: eval_defs)
  have k: "accepted (\<lambda>x c. isAddProposal c) (snd (constructor 5 zero_storage))
        [(5, AddProposal ''D''), (6, AddProposal ''E''), (5, AddProposal []), (5, AddProposal ''F'')] = 2"
    by (simp add: eval_defs)
  have c: "getProposalsCount (snd (constructor 5 zero_storage)) = 3"
    by (simp add: eval_defs)
  note inst = addProposal_appends [OF h, of
      "[(5, AddProposal ''D''), (6, AddProposal ''E''), (5, AddProposal []), (5, AddProposal ''F'')]"
      5 "''D''" "snd (constructor 5 zero_storage)" RNothing
      "snd (transact 5 (AddProposal ''D'') (snd (constructor 5 zero_storage)))"]
  from inst h k t c show ?thesis by simp
qed

section \<open>Claims about proposal names, rejected calls and return values\<close>

text \<open>The length bound on names is kept by every call and holds at deployment.\<close>

lemma names_transact:
  "\<forall>p\<in>set (proposals s). 1 \<le> length (name p) \<and> length (name p) \<le> 99 \<Longrightarrow>
   \<forall>p\<in>set (proposals (snd (transact x c s))). 1 \<le> length (name p) \<and> length (name p) \<le> 99"
proof (cases c)
  case (AddProposal n)
  assume "\<forall>p\<in>set (proposals s). 1 \<le> length (name p) \<and> length (name p) \<le> 99"
  then show ?thesis
    unfolding AddProposal transact_AddProposal by (auto simp: Suc_le_eq)
next
  case (Vote i)
  assume a: "\<forall>p\<in>set (proposals s). 1 \<le> length (name p) \<and> length (name p) \<le> 99"
  show ?thesis
  proof
    fix p assume "p \<in> set (proposals (snd (transact x c s)))"
    then obtain j where j: "j < length (proposals (snd (transact x c s)))"
        "p = proposals (snd (transact x c s)) ! j"
      by (auto simp: in_set_conv_nth)
    from j(1) have jl: "j < length (proposals s)"
      by (simp add: length_transact Vote del: transact.simps(1,2))
    from name_transact [OF jl, of x c] j(2) have "name p = name (proposals s ! j)" by simp
    with a jl show "1 \<le> length (name p) \<and> length (name p) \<le> 99" by simp
  qed
qed (simp_all split: sum.splits)

lemma names_run:
  "\<forall>p\<in>set (proposals s). 1 \<le> length (name p) \<and> length (name p) \<le> 99 \<Longrightarrow>
   \<forall>p\<in>set (proposals (run s cs)). 1 \<le> length (name p) \<and> length (name p) \<le> 99"
proof (induction cs arbitrary: s)
  case Nil
  then show ?case by simp
next
  case (Cons xc cs)
  obtain x c where xc: "xc = (x, c)" by (cases xc)
  from Cons.IH [OF names_transact [OF Cons.prems, of x c]] show ?case by (simp add: xc)
qed

lemma names_deploy:
  "deploy creator = Inr s0 \<Longrightarrow>
   \<forall>p\<in>set (proposals s0). 1 \<le> length (name p) \<and> length (name p) \<le> 99"
  unfolding deploy_state by auto

text \<open>
  C6: a proposal is added exactly when the byte length of its name is between 1 and 99
  (for \<open>addProposal\<close>: when the caller is the owner as well); the owner's call with an
  empty name or with a name of 100 or more bytes fails with an invalid-proposal error;
  and every stored name has a byte length between 1 and 99.
\<close>

theorem addProposal_name_length:
  "(succeeded (fst (transact sender (AddProposal n) s)) \<longleftrightarrow>
      sender = owner s \<and> 1 \<le> length n \<and> length n \<le> 99)
   \<and> (succeeded (fst (addProposalInternal n s)) \<longleftrightarrow> 1 \<le> length n \<and> length n \<le> 99)
   \<and> (\<exists>e. addProposal (owner s) [] s = (Inl e, s) \<and> InvalidProposal e)
   \<and> (100 \<le> length n \<longrightarrow> (\<exists>e. addProposal (owner s) n s = (Inl e, s) \<and> InvalidProposal e))
   \<and> (deploy creator = Inr s0 \<longrightarrow>
        (\<forall>p\<in>set (proposals (run s0 cs)). 1 \<le> length (name p) \<and> length (name p) \<le> 99))"
proof -
  have 1: "succeeded (fst (transact sender (AddProposal n) s)) \<longleftrightarrow>
      sender = owner s \<and> 1 \<le> length n \<and> length n \<le> 99"
    unfolding transact_AddProposal by (auto simp: Suc_le_eq)
  have 2: "succeeded (fst (addProposalInternal n s)) \<longleftrightarrow> 1 \<le> length n \<and> length n \<le> 99"
    by (auto simp: addProposalInternal_def Let_def Suc_le_eq)
  have 3: "\<exists>e. addProposal (owner s) [] s = (Inl e, s) \<and> InvalidProposal e"
    by (simp add: addProposal_def onlyOwner_def addProposalInternal_def InvalidProposal_def)
  have 4: "\<exists>e. addProposal (owner s) n s = (Inl e, s) \<and> InvalidProposal e" if "100 \<le> length n"
    using that by (auto simp: addProposal_def onlyOwner_def addProposalInternal_def InvalidProposal_def)
  have 5: "\<forall>p\<in>set (proposals (run s0 cs)). 1 \<le> length (name p) \<and> length (name p) \<le> 99"
    if "deploy creator = Inr s0"
    by (rule names_run [OF names_deploy [OF that]])
  from 1 2 3 4 5 show ?thesis by blast
qed

theorem addProposal_name_length_witness:
  "succeeded (fst (transact 5 (AddProposal (replicate 99 CHR ''a'')) (snd (constructor 5 zero_storage))))
   \<and> addProposal 5 (replicate 100 CHR ''a'') (snd (constructor 5 zero_storage))
        = (Inl (Revert ''Proposal name is too long.''), snd (constructor 5 zero_storage))
   \<and> addProposal 5 [] (snd (constructor 5 zero_storage))
        = (Inl (Revert ''Proposal name cannot be empty.''), snd (constructor 5 zero_storage))
   \<and> deploy 5 = Inr (snd (constructor 5 zero_storage))
   \<and> map (\<lambda>p. length (name p))
        (proposals (run (snd (constructor 5 zero_storage)) [(5, AddProposal ''D''), (5, AddProposal [])]))
        = [30, 35, 36, 1]"
proof -
  have o: "owner (snd (constructor 5 zero_storage)) = 5"
    by (simp add: eval_defs)
  have h: "deploy 5 = Inr (snd (constructor 5 zero_storage))"
    by (rule deploy_constructor)
  note inst = addProposal_name_length [of 5 "replicate 99 CHR ''a''" "snd (constructor 5 zero_storage)"
      5 "snd (constructor 5 zero_storage)" "[(5, AddProposal ''D''), (5, AddProposal [])]"]
  from inst o have a: "succeeded (fst (transact 5 (AddProposal (replicate 99 CHR ''a''))
      (snd (constructor 5 zero_storage))))"
    by simp
  have b: "addProposal 5 (replicate 100 CHR ''a'') (snd (constructor 5 zero_storage))
        = (Inl (Revert ''Proposal name is too long.''), snd (constructor 5 zero_storage))"
    by (simp add: addProposal_def onlyOwner_def addProposalInternal_def o)
  have c: "addProposal 5 [] (snd (constructor 5 zero_storage))
        = (Inl (Revert ''Proposal name cannot be empty.''), snd (constructor 5 zero_storage))"
    by (simp add: addProposal_def onlyOwner_def addProposalInternal_def o)
  have d: "map (\<lambda>p. length (name p))
        (proposals (run (snd (constructor 5 zero_storage)) [(5, AddProposal ''D''), (5, AddProposal [])]))
        = [30, 35, 36, 1]"
    by (simp add: eval_defs)
  from a b c h d show ?thesis by blast
qed

text \<open>
  C7: \<open>addProposal\<close> by an identity other than the owner fails with the unauthorized
  error, and a rejected call leaves the whole state as it was: every failing \<open>require\<close>
  of \<open>addProposal\<close> and \<open>vote\<close> comes before the first write, and a failed call is
  rolled back.
\<close>

theorem rejected_calls_change_nothing:
  "(sender \<noteq> owner s \<longrightarrow>
      (\<exists>e. addProposal sender n s = (Inl e, s) \<and> Unauthorized e)
      \<and> (\<exists>e. transact sender (AddProposal n) s = (Inl e, s) \<and> Unauthorized e))
   \<and> (addProposal sender n s = (Inl e1, s1) \<longrightarrow> (Unauthorized e1 \<or> InvalidProposal e1) \<and> s1 = s)
   \<and> (vote sender i s = (Inl e2, s2) \<and> (InvalidIndex e2 \<or> AlreadyVoted e2) \<longrightarrow> s2 = s)
   \<and> (fst (transact sender c s) = Inl e3 \<longrightarrow> snd (transact sender c s) = s)"
proof -
  have 1: "(\<exists>e. addProposal sender n s = (Inl e, s) \<and> Unauthorized e)
      \<and> (\<exists>e. transact sender (AddProposal n) s = (Inl e, s) \<and> Unauthorized e)"
    if "sender \<noteq> owner s"
    using that by (simp add: addProposal_def onlyOwner_def commit_def Unauthorized_def)
  have 2: "(Unauthorized e1 \<or> InvalidProposal e1) \<and> s1 = s"
    if "addProposal sender n s = (Inl e1, s1)"
    using that
    by (auto simp: addProposal_def onlyOwner_def addProposalInternal_def Let_def
        Unauthorized_def InvalidProposal_def split: if_splits)
  have 3: "s2 = s" if "vote sender i s = (Inl e2, s2) \<and> (InvalidIndex e2 \<or> AlreadyVoted e2)"
    using that
    by (auto simp: vote_def Let_def InvalidIndex_def AlreadyVoted_def split: if_splits)
  have 4: "snd (transact sender c s) = s" if "fst (transact sender c s) = Inl e3"
    using that
    by (cases c) (auto simp: commit_def split: prod.splits sum.splits)
  from 1 2 3 4 show ?thesis by blast
qed

theorem rejected_calls_change_nothing_witness:
  "(9::address) \<noteq> owner (snd (constructor 5 zero_storage))
   \<and> transact 9 (AddProposal ''Gamma'') (snd (constructor 5 zero_storage))
        = (Inl (Revert ''Only owner can call this function.''), snd (constructor 5 zero_storage))
   \<and> addProposal 5 [] (snd (constructor 5 zero_storage))
        = (Inl (Revert ''Proposal name cannot be empty.''), snd (constructor 5 zero_storage))
   \<and> vote 1 7 (snd (constructor 5 zero_storage))
        = (Inl (Revert ''Voting: Invalid proposal index.''), snd (constructor 5 zero_storage))
   \<and> InvalidIndex (Revert ''Voting: Invalid proposal index.'')
   \<and> fst (transact 1 (Vote 0) (snd (transact 1 (Vote 1) (snd (constructor 5 zero_storage)))))
        = Inl (Revert ''Voting: You have already voted.'')
   \<and> snd (transact 1 (Vote 0) (snd (transact 1 (Vote 1) (snd (constructor 5 zero_storage)))))
        = snd (transact 1 (Vote 1) (snd (constructor 5 zero_storage)))"
proof -
  have o: "owner (snd (constructor 5 zero_storage)) = 5"
    by (simp add: eval_defs)
  have l: "length (proposals (snd (constructor 5 zero_storage))) = 3"
    by (simp add: eval_defs)
  have a: "addProposal 5 [] (snd (constructor 5 zero_storage))
        = (Inl (Revert ''Proposal name cannot be empty.''), snd (constructor 5 zero_storage))"
    by (simp add: addProposal_def onlyOwner_def addProposalInternal_def o)
  have v: "vote 1 7 (snd (constructor 5 zero_storage))
        = (Inl (Revert ''Voting: Invalid proposal index.''), snd (constructor 5 zero_storage))"
    by (simp add: vote_def l)
  have ii: "InvalidIndex (Revert ''Voting: Invalid proposal index.'')"
    by (simp add: InvalidIndex_def)
  have f: "fst (transact 1 (Vote 0) (snd (transact 1 (Vote 1) (snd (constructor 5 zero_storage)))))
        = Inl (Revert ''Voting: You have already voted.'')"
    by (simp add: eval_defs)
  note inst1 = rejected_calls_change_nothing [of 9 "snd (constructor 5 zero_storage)" "''Gamma''"
      "Revert ''Only owner can call this function.''" "snd (constructor 5 zero_storage)"
      7 "Revert ''Voting: Invalid proposal index.''" "snd (constructor 5 zero_storage)"
      "Vote 0" "Revert ''Only owner can call this function.''"]
  note inst2 = rejected_calls_change_nothing [of 1 "snd (transact 1 (Vote 1) (snd (constructor 5 zero_storage)))"
      "''Gamma''" "Revert ''Only owner can call this function.''" "snd (constructor 5 zero_storage)"
      0 "Revert ''Voting: You have already voted.''" "snd (constructor 5 zero_storage)"
      "Vote 0" "Revert ''Voting: You have already voted.''"]
  have ne: "(9::address) \<noteq> owner (snd (constructor 5 zero_storage))"
    by (simp add: o)
  from inst1 ne have t: "transact 9 (AddProposal ''Gamma'') (snd (constructor 5 zero_storage))
        = (Inl (Revert ''Only owner can call this function.''), snd (constructor 5 zero_storage))"
    by (auto simp: Unauthorized_def)
  from inst2 f have g: "snd (transact 1 (Vote 0) (snd (transact 1 (Vote 1) (snd (constructor 5 zero_storage)))))
        = snd (transact 1 (Vote 1) (snd (constructor 5 zero_storage)))"
    by blast
  from ne t a v ii f g show ?thesis by blast
qed

text \<open>
  C9, as stated: an accepted \<open>addProposal\<close> returns the index newly assigned. The
  function has no \<open>returns\<close> clause: on the deployed ledger the owner's call is
  accepted, the proposal gets index 3 and the call returns nothing.
\<close>

theorem addProposal_returns_index_counterexample:
  "getProposalsCount (snd (constructor 5 zero_storage)) = 3
   \<and> fst (transact 5 (AddProposal ''Proposal D'') (snd (constructor 5 zero_storage))) = Inr RNothing
   \<and> fst (transact 5 (AddProposal ''Proposal D'') (snd (constructor 5 zero_storage))) \<noteq> Inr (RUint 3)
   \<and> getProposal 3 (snd (transact 5 (AddProposal ''Proposal D'') (snd (constructor 5 zero_storage))))
        = Inr (''Proposal D'', 0)"
  by (simp add: eval_defs)

text \<open>
  C9, amended: an accepted \<open>addProposal\<close> returns no value; the index newly assigned,
  the count before the call, is reported in the \<open>ProposalAdded\<close> event the call emits,
  and the proposal is stored at that index.
\<close>

theorem addProposal_reports_index_in_event:
  "transact sender (AddProposal n) s = (Inr r, s') \<Longrightarrow>
   r = RNothing
   \<and> events s' = events s @ [ProposalAdded (getProposalsCount s) n]
   \<and> getProposal (getProposalsCount s) s' = Inr (n, 0)"
  using accepted_AddProposal_step [of sender n s r s']
  by (simp add: getProposalsCount_def getProposal_def)

theorem addProposal_reports_index_in_event_witness:
  "transact 5 (AddProposal ''Proposal D'') (snd (constructor 5 zero_storage))
     = (Inr RNothing, snd (transact 5 (AddProposal ''Proposal D'') (snd (constructor 5 zero_storage))))
   \<and> last (events (snd (transact 5 (AddProposal ''Proposal D'') (snd (constructor 5 zero_storage)))))
     = ProposalAdded 3 ''Proposal D''
   \<and> getProposal 3 (snd (transact 5 (AddProposal ''Proposal D'') (snd (constructor 5 zero_storage))))
     = Inr (''Proposal D'', 0)"
proof -
  have t: "transact 5 (AddProposal ''Proposal D'') (snd (constructor 5 zero_storage))
     = (Inr RNothing, snd (transact 5 (AddProposal ''Proposal D'') (snd (constructor 5 zero_storage))))"
    by (simp add: eval_defs)
  have c: "getProposalsCount (snd (constructor 5 zero_storage)) = 3"
    by (simp add: eval_defs)
  from addProposal_reports_index_in_event [OF t] t show ?thesis
    unfolding c by simp
qed

end
